theory Spec2Isabelle
  imports Main "HOL-Library.Word" "HOL-Library.List_Lexorder" "HOL-Library.Char_ord"
begin

section \<open>Data model\<close>

text \<open>
  The S3 wrapper of the file service (\<^verbatim>\<open>pkg/s3\<close>, in \<^verbatim>\<open>src/routes/routes.go\<close>) is
  embedded function by function. The object store itself (the AWS SDK client
  \<^verbatim>\<open>s.svc\<close>) is an external collaborator: its calls are parameters of the model.

  Time is an integer count of nanoseconds, as Go's \<^verbatim>\<open>time.Time\<close> resolves it; every
  operation samples the clock once, the reading being its parameter \<open>now\<close>.
\<close>

type_synonym time = int

text \<open>
  A Go \<^verbatim>\<open>error\<close> that a backend call hands back, and the run-time panic of dereferencing
  a nil pointer (\<^verbatim>\<open>objects.NextPageToken\<close> on the nil response of a failed call).
\<close>

datatype error = BackendError string | NilPointerDereference

text \<open>The SDK's \<^verbatim>\<open>s3.Object\<close>, with the three fields the wrapper reads.\<close>

record Object =
  Key :: string
  ObjSize :: int
  ObjLastModified :: time

record ListObjectsV2Input =
  Prefix :: string
  Delimiter :: "string option"
  MaxKeys :: "64 word"
  ContinuationToken :: "string option"

record ListObjectsV2Output =
  Contents :: "Object list"
  CommonPrefixes :: "string list"
  NextContinuationToken :: "string option"
  IsTruncated :: bool

text \<open>
  \<^verbatim>\<open>s.svc.ListObjectsV2\<close> returns an output struct and an error, both of which the
  wrapper reads (the output also when the error is set), so the model keeps the pair.
\<close>

type_synonym list_api = "ListObjectsV2Input \<Rightarrow> ListObjectsV2Output \<times> error option"

text \<open>\<^verbatim>\<open>req.Presign(expiryTime)\<close> for an object key, at the time of the call.\<close>

type_synonym presign_api = "string \<Rightarrow> time \<Rightarrow> error + string"

record ObjectDetails =
  Name :: string
  IsFolder :: bool
  Size :: int
  LastModified :: time
  DownloadLink :: string

record ListFilesResponse =
  Files :: "ObjectDetails list"
  NextPageToken :: string
  IsLastPage :: bool
  NoOfRecordsReturned :: "32 word"
  FilesCount :: "32 word"
  FoldersCount :: "32 word"

section \<open>The link cache\<close>

text \<open>
  Modelled from the spec: the package \<^verbatim>\<open>pkg/cache\<close> (type \<^verbatim>\<open>URLCache\<close> with its methods
  \<^verbatim>\<open>Get\<close> and \<^verbatim>\<open>Set\<close>) is not among the sources. The spec's CacheEntry is a pair
  \<open>(url, expires_at)\<close>, valid for reads iff \<open>now < expires_at\<close>; an absent and an expired
  entry are the same miss.
\<close>

type_synonym URLCache = "string \<rightharpoonup> (string \<times> time)"

definition cache_Get :: "URLCache \<Rightarrow> time \<Rightarrow> string \<Rightarrow> string \<times> bool" where
  "cache_Get c now k =
     (case c k of
        None \<Rightarrow> ('''', False)
      | Some (url, expires_at) \<Rightarrow> if now < expires_at then (url, True) else ('''', False))"

definition cache_Set :: "URLCache \<Rightarrow> string \<Rightarrow> string \<Rightarrow> time \<Rightarrow> URLCache" where
  "cache_Set c k url expires_at = c(k \<mapsto> (url, expires_at))"

text \<open>
  The state a link lookup works on: the cache, and the keys presigned so far (the
  trace of calls to the presign computation, oldest first).
\<close>

record link_state =
  cache :: URLCache
  presigned :: "string list"

definition empty_links :: link_state where
  "empty_links = \<lparr>cache = Map.empty, presigned = []\<rparr>"

text \<open>\<^verbatim>\<open>expiryTime := 15 * time.Minute\<close>, in nanoseconds.\<close>

definition expiryTime :: time where
  "expiryTime = 15 * 60 * 1000000000"

text \<open>\<^verbatim>\<open>GenerateDownloadLink\<close> (routes.go 725-750).\<close>

definition GenerateDownloadLink ::
  "presign_api \<Rightarrow> time \<Rightarrow> string \<Rightarrow> link_state \<Rightarrow> (error + string) \<times> link_state" where
  "GenerateDownloadLink presign now objectKey st =
     (case cache_Get (cache st) now objectKey of
        (url, True) \<Rightarrow> (Inr url, st)
      | (_, False) \<Rightarrow>
          (case presign objectKey now of
             Inl err \<Rightarrow> (Inl err, st\<lparr>presigned := presigned st @ [objectKey]\<rparr>)
           | Inr downloadURL \<Rightarrow>
               (Inr downloadURL,
                st\<lparr>cache := cache_Set (cache st) objectKey downloadURL (now + expiryTime),
                   presigned := presigned st @ [objectKey]\<rparr>)))"

section \<open>Listing one page\<close>

text \<open>The path normalisation every operation starts with.\<close>

definition HasSuffix :: "string \<Rightarrow> string \<Rightarrow> bool" where
  "HasSuffix s suffix =
     (length suffix \<le> length s \<and> drop (length s - length suffix) s = suffix)"

definition normalizePath :: "string \<Rightarrow> string" where
  "normalizePath folderPath =
     (if folderPath \<noteq> '''' \<and> \<not> HasSuffix folderPath ''/'' then folderPath @ ''/''
      else folderPath)"

text \<open>\<^verbatim>\<open>time.Now().UTC().Truncate(time.Second)\<close>.\<close>

definition truncate_second :: "time \<Rightarrow> time" where
  "truncate_second t = t - t mod 1000000000"

definition folder_record :: "time \<Rightarrow> string \<Rightarrow> ObjectDetails" where
  "folder_record now p =
     \<lparr>Name = p, IsFolder = True, Size = 0, LastModified = truncate_second now,
      DownloadLink = ''''\<rparr>"

definition object_record :: "Object \<Rightarrow> ObjectDetails" where
  "object_record obj =
     \<lparr>Name = Key obj, IsFolder = (ObjSize obj = 0), Size = ObjSize obj,
      LastModified = ObjLastModified obj, DownloadLink = ''''\<rparr>"

text \<open>
  The loop over \<^verbatim>\<open>resp.Contents\<close> of \<^verbatim>\<open>ListFiles\<close> (routes.go 586-607): the entry
  whose key is the folder path is skipped; every other entry is counted, appended and
  given its download link; the first link error ends the call.
\<close>

fun list_contents ::
  "presign_api \<Rightarrow> time \<Rightarrow> string \<Rightarrow> Object list \<Rightarrow> ObjectDetails list \<Rightarrow> 32 word \<Rightarrow>
   link_state \<Rightarrow> (error + ObjectDetails list \<times> 32 word) \<times> link_state" where
  "list_contents presign now folderPath [] objects fileCount st =
     (Inr (objects, fileCount), st)"
| "list_contents presign now folderPath (obj # rest) objects fileCount st =
     (if Key obj = folderPath then
        list_contents presign now folderPath rest objects fileCount st
      else
        (case GenerateDownloadLink presign now (Key obj) st of
           (Inl err, st') \<Rightarrow> (Inl err, st')
         | (Inr downloadURL, st') \<Rightarrow>
             list_contents presign now folderPath rest
               (objects @ [(object_record obj)\<lparr>DownloadLink := downloadURL\<rparr>])
               (fileCount + 1) st'))"

text \<open>The request \<^verbatim>\<open>ListFiles\<close> sends (routes.go 554-563).\<close>

definition list_input :: "string \<Rightarrow> string \<Rightarrow> 64 word \<Rightarrow> ListObjectsV2Input" where
  "list_input folderPath nextPageToken pageSize =
     \<lparr>Prefix = normalizePath folderPath, Delimiter = Some ''/'', MaxKeys = pageSize + 1,
      ContinuationToken = (if nextPageToken \<noteq> '''' then Some nextPageToken else None)\<rparr>"

text \<open>\<^verbatim>\<open>ListFiles\<close> (routes.go 547-625).\<close>

definition ListFiles ::
  "list_api \<Rightarrow> presign_api \<Rightarrow> time \<Rightarrow> string \<Rightarrow> string \<Rightarrow> 64 word \<Rightarrow> bool \<Rightarrow> link_state \<Rightarrow>
   (error + ListFilesResponse) \<times> link_state" where
  "ListFiles lst presign now folderPath nextPageToken pageSize isFolder st =
     (case lst (list_input folderPath nextPageToken pageSize) of
        (resp, Some err) \<Rightarrow> (Inl err, st)
      | (resp, None) \<Rightarrow>
          (case (if \<not> isFolder then
                   list_contents presign now (normalizePath folderPath) (Contents resp)
                     (map (folder_record now) (CommonPrefixes resp)) 0 st
                 else (Inr (map (folder_record now) (CommonPrefixes resp), 0), st)) of
             (Inl err, st') \<Rightarrow> (Inl err, st')
           | (Inr (objects, fileCount), st') \<Rightarrow>
               (Inr \<lparr>Files = objects,
                     NextPageToken =
                       (case NextContinuationToken resp of None \<Rightarrow> '''' | Some t \<Rightarrow> t),
                     IsLastPage = (\<not> IsTruncated resp),
                     NoOfRecordsReturned = of_nat (length objects),
                     FilesCount = fileCount,
                     FoldersCount = of_nat (length (CommonPrefixes resp))\<rparr>, st')))"

section \<open>Listing a whole tree\<close>

text \<open>
  The loops of this section and the next run until the backend stops handing out
  continuation tokens, and the recursion until no folder is left, so neither is bounded
  by the program: the model gives them fuel, and \<open>None\<close> says that the fuel did not
  suffice (for every amount of fuel: that the code does not return).

  The page loop of \<^verbatim>\<open>ListAllFiles\<close> (routes.go 637-645 and 654-662). The error of the
  page call is dropped (\<^verbatim>\<open>temp, _ :=\<close>) and the nil response dereferenced. Every call
  is given a fresh \<^verbatim>\<open>&cache.URLCache{}\<close>.
\<close>

fun drain_pages ::
  "nat \<Rightarrow> list_api \<Rightarrow> presign_api \<Rightarrow> time \<Rightarrow> string \<Rightarrow> string \<Rightarrow> ObjectDetails list \<Rightarrow>
   (error + ObjectDetails list) option" where
  "drain_pages 0 lst presign now path nextToken allObjects =
     (if nextToken = '''' then Some (Inr allObjects) else None)"
| "drain_pages (Suc fuel) lst presign now path nextToken allObjects =
     (if nextToken = '''' then Some (Inr allObjects)
      else
        (case fst (ListFiles lst presign now path nextToken 10 False empty_links) of
           Inl err \<Rightarrow> Some (Inl NilPointerDereference)
         | Inr temp \<Rightarrow>
             drain_pages fuel lst presign now path (NextPageToken temp)
               (allObjects @ Files temp)))"

text \<open>
  \<^verbatim>\<open>listObjectsRecursively\<close> (routes.go 649-683), with the loop over the records of the
  first page that calls it (routes.go 673-680, and 686-693 in \<^verbatim>\<open>ListAllFiles\<close>). The
  closure appends to the captured \<^verbatim>\<open>allObjects\<close>, which the model passes and returns.
  \<^verbatim>\<open>objects.NextPageToken\<close> is read before \<^verbatim>\<open>err\<close> is looked at.
\<close>

function listObjectsRecursively ::
  "nat \<Rightarrow> list_api \<Rightarrow> presign_api \<Rightarrow> time \<Rightarrow> string \<Rightarrow> ObjectDetails list \<Rightarrow>
   (error + ObjectDetails list) option"
and recurse_subfolders ::
  "nat \<Rightarrow> list_api \<Rightarrow> presign_api \<Rightarrow> time \<Rightarrow> ObjectDetails list \<Rightarrow> ObjectDetails list \<Rightarrow>
   (error + ObjectDetails list) option" where
  "listObjectsRecursively 0 lst presign now path allObjects = None"
| "listObjectsRecursively (Suc fuel) lst presign now path allObjects =
     (case fst (ListFiles lst presign now path '''' 10 False empty_links) of
        Inl err \<Rightarrow> Some (Inl NilPointerDereference)
      | Inr objects \<Rightarrow>
          (case drain_pages fuel lst presign now path (NextPageToken objects) allObjects of
             None \<Rightarrow> None
           | Some (Inl e) \<Rightarrow> Some (Inl e)
           | Some (Inr allObjects') \<Rightarrow>
               recurse_subfolders fuel lst presign now (Files objects)
                 (allObjects' @ Files objects)))"
| "recurse_subfolders fuel lst presign now [] allObjects = Some (Inr allObjects)"
| "recurse_subfolders fuel lst presign now (subfolder # rest) allObjects =
     (if IsFolder subfolder then
        (case listObjectsRecursively fuel lst presign now (Name subfolder) allObjects of
           None \<Rightarrow> None
         | Some (Inl e) \<Rightarrow> Some (Inl e)
         | Some (Inr allObjects') \<Rightarrow>
             recurse_subfolders fuel lst presign now rest allObjects')
      else recurse_subfolders fuel lst presign now rest allObjects)"
  by pat_completeness auto
termination
  by (relation "measures
        [\<lambda>x. case x of Inl (fuel, _) \<Rightarrow> fuel | Inr (fuel, _) \<Rightarrow> fuel,
         \<lambda>x. case x of Inl _ \<Rightarrow> 0 | Inr (_, _, _, _, fs, _) \<Rightarrow> Suc (length fs)]")
     auto

text \<open>\<^verbatim>\<open>ListAllFiles\<close> (routes.go 627-706).\<close>

definition ListAllFiles ::
  "nat \<Rightarrow> list_api \<Rightarrow> presign_api \<Rightarrow> time \<Rightarrow> string \<Rightarrow> (error + ListFilesResponse) option" where
  "ListAllFiles fuel lst presign now folderPath =
     (case fst (ListFiles lst presign now folderPath '''' 10 False empty_links) of
        Inl err \<Rightarrow> Some (Inl NilPointerDereference)
      | Inr objects \<Rightarrow>
          (case drain_pages fuel lst presign now folderPath (NextPageToken objects) [] of
             None \<Rightarrow> None
           | Some (Inl e) \<Rightarrow> Some (Inl e)
           | Some (Inr paged) \<Rightarrow>
               (case recurse_subfolders fuel lst presign now (Files objects) paged of
                  None \<Rightarrow> None
                | Some (Inl e) \<Rightarrow> Some (Inl e)
                | Some (Inr allObjects) \<Rightarrow>
                    Some (Inr \<lparr>Files = Files objects @ allObjects,
                               NextPageToken = NextPageToken objects,
                               IsLastPage = IsLastPage objects,
                               NoOfRecordsReturned =
                                 of_nat (length (Files objects @ allObjects)),
                               FilesCount = FilesCount objects,
                               FoldersCount = FoldersCount objects\<rparr>))))"

section \<open>Deleting a folder\<close>

text \<open>
  The object store has a state \<open>'s\<close>: a listing reads it, \<^verbatim>\<open>DeleteObject\<close> changes it
  and may fail. The trace records every backend call in the order issued.
\<close>

type_synonym 's delete_api = "'s \<Rightarrow> string \<Rightarrow> 's \<times> error option"

datatype call = ListCall ListObjectsV2Input | DeleteCall string

text \<open>The flat (undelimited) listing request of \<^verbatim>\<open>DeleteFolder\<close> and \<^verbatim>\<open>ListAllFolders\<close>.\<close>

definition flat_input :: "string \<Rightarrow> 64 word \<Rightarrow> string option \<Rightarrow> ListObjectsV2Input" where
  "flat_input folderPath maxKeys token =
     \<lparr>Prefix = folderPath, Delimiter = None, MaxKeys = maxKeys, ContinuationToken = token\<rparr>"

text \<open>The loop over the first response (routes.go 781-793).\<close>

fun collect_first :: "string \<Rightarrow> Object list \<Rightarrow> ObjectDetails list \<Rightarrow> ObjectDetails list" where
  "collect_first folderPath [] allObjects = allObjects"
| "collect_first folderPath (obj # rest) allObjects =
     (if Key obj = folderPath then collect_first folderPath rest allObjects
      else collect_first folderPath rest (allObjects @ [object_record obj]))"

text \<open>
  The loop over a later response (routes.go 814-833). \<^verbatim>\<open>nextToken\<close> is assigned inside
  the loop body, after the append: \<^verbatim>\<open>continue\<close> skips the assignment, and a nil token
  leaves the loop at once.
\<close>

fun collect_page ::
  "string \<Rightarrow> string option \<Rightarrow> Object list \<Rightarrow> ObjectDetails list \<Rightarrow> string option \<Rightarrow>
   ObjectDetails list \<times> string option" where
  "collect_page folderPath currNext [] allObjects nextToken = (allObjects, nextToken)"
| "collect_page folderPath currNext (obj # rest) allObjects nextToken =
     (if Key obj = folderPath then collect_page folderPath currNext rest allObjects nextToken
      else if currNext = None then (allObjects @ [object_record obj], None)
      else collect_page folderPath currNext rest (allObjects @ [object_record obj]) currNext)"

text \<open>The pagination loop \<^verbatim>\<open>for nextToken != nil\<close> (routes.go 801-835).\<close>

fun collect_loop ::
  "nat \<Rightarrow> list_api \<Rightarrow> string \<Rightarrow> string option \<Rightarrow> ObjectDetails list \<Rightarrow> call list \<Rightarrow>
   ((error + ObjectDetails list) \<times> call list) option" where
  "collect_loop fuel lst folderPath None allObjects calls = Some (Inr allObjects, calls)"
| "collect_loop 0 lst folderPath (Some t) allObjects calls = None"
| "collect_loop (Suc fuel) lst folderPath (Some t) allObjects calls =
     (case lst (flat_input folderPath 1000 (Some t)) of
        (cur, Some err) \<Rightarrow>
          Some (Inl err, calls @ [ListCall (flat_input folderPath 1000 (Some t))])
      | (cur, None) \<Rightarrow>
          (case collect_page folderPath (NextContinuationToken cur) (Contents cur)
                  allObjects (Some t) of
             (allObjects', nextToken') \<Rightarrow>
               collect_loop fuel lst folderPath nextToken' allObjects'
                 (calls @ [ListCall (flat_input folderPath 1000 (Some t))])))"

text \<open>The listing phase of \<^verbatim>\<open>DeleteFolder\<close> (routes.go 769-835).\<close>

definition collect_keys ::
  "nat \<Rightarrow> list_api \<Rightarrow> string \<Rightarrow> ((error + ObjectDetails list) \<times> call list) option" where
  "collect_keys fuel lst folderPath =
     (case lst (flat_input (normalizePath folderPath) 2 None) of
        (resp, Some err) \<Rightarrow>
          Some (Inl err, [ListCall (flat_input (normalizePath folderPath) 2 None)])
      | (resp, None) \<Rightarrow>
          collect_loop fuel lst (normalizePath folderPath) (NextContinuationToken resp)
            (collect_first (normalizePath folderPath) (Contents resp) [])
            [ListCall (flat_input (normalizePath folderPath) 2 None)])"

text \<open>The loop of deletes (routes.go 837-842).\<close>

fun delete_each ::
  "'s delete_api \<Rightarrow> string list \<Rightarrow> 's \<Rightarrow> call list \<Rightarrow> error option \<times> 's \<times> call list" where
  "delete_each del [] s calls = (None, s, calls)"
| "delete_each del (k # ks) s calls =
     (case del s k of
        (s', Some err) \<Rightarrow> (Some err, s', calls @ [DeleteCall k])
      | (s', None) \<Rightarrow> delete_each del ks s' (calls @ [DeleteCall k]))"

text \<open>The delete phase (routes.go 837-851): the collected objects, then the folder itself.\<close>

definition delete_phase ::
  "'s delete_api \<Rightarrow> string \<Rightarrow> ObjectDetails list \<Rightarrow> 's \<Rightarrow> call list \<Rightarrow>
   error option \<times> 's \<times> call list" where
  "delete_phase del folderPath allObjects s calls =
     (case delete_each del (map Name allObjects) s calls of
        (Some err, s', calls') \<Rightarrow> (Some err, s', calls')
      | (None, s', calls') \<Rightarrow>
          (case del s' folderPath of
             (s'', err) \<Rightarrow> (err, s'', calls' @ [DeleteCall folderPath])))"

text \<open>\<^verbatim>\<open>DeleteFolder\<close> (routes.go 766-852): its error result, the store and the trace.\<close>

definition DeleteFolder ::
  "nat \<Rightarrow> ('s \<Rightarrow> list_api) \<Rightarrow> 's delete_api \<Rightarrow> string \<Rightarrow> 's \<Rightarrow>
   (error option \<times> 's \<times> call list) option" where
  "DeleteFolder fuel lst del folderPath s =
     (case collect_keys fuel (lst s) folderPath of
        None \<Rightarrow> None
      | Some (Inl err, calls) \<Rightarrow> Some (Some err, s, calls)
      | Some (Inr allObjects, calls) \<Rightarrow>
          Some (delete_phase del (normalizePath folderPath) allObjects s calls))"

section \<open>Listing all folders\<close>

text \<open>The loop over the first response of \<^verbatim>\<open>ListAllFolders\<close> (routes.go 869-883).\<close>

fun folders_first :: "string \<Rightarrow> Object list \<Rightarrow> ObjectDetails list \<Rightarrow> ObjectDetails list" where
  "folders_first folderPath [] allObjects = allObjects"
| "folders_first folderPath (obj # rest) allObjects =
     (if Key obj = folderPath then folders_first folderPath rest allObjects
      else if ObjSize obj = 0 then
        folders_first folderPath rest (allObjects @ [object_record obj])
      else folders_first folderPath rest allObjects)"

text \<open>The loop over a later response (routes.go 899-919).\<close>

fun folders_page ::
  "string \<Rightarrow> string option \<Rightarrow> Object list \<Rightarrow> ObjectDetails list \<Rightarrow> string option \<Rightarrow>
   ObjectDetails list \<times> string option" where
  "folders_page folderPath currNext [] allObjects nextToken = (allObjects, nextToken)"
| "folders_page folderPath currNext (obj # rest) allObjects nextToken =
     (if Key obj = folderPath then folders_page folderPath currNext rest allObjects nextToken
      else
        (let allObjects' =
               (if ObjSize obj = 0 then allObjects @ [object_record obj] else allObjects)
         in if currNext = None then (allObjects', None)
            else folders_page folderPath currNext rest allObjects' currNext))"

text \<open>The pagination loop (routes.go 891-921); the error of the call is dropped.\<close>

fun folders_loop ::
  "nat \<Rightarrow> list_api \<Rightarrow> string \<Rightarrow> string option \<Rightarrow> ObjectDetails list \<Rightarrow>
   ObjectDetails list option" where
  "folders_loop fuel lst folderPath None allObjects = Some allObjects"
| "folders_loop 0 lst folderPath (Some t) allObjects = None"
| "folders_loop (Suc fuel) lst folderPath (Some t) allObjects =
     (case lst (flat_input folderPath 1000 (Some t)) of
        (cur, _) \<Rightarrow>
          (case folders_page folderPath (NextContinuationToken cur) (Contents cur)
                  allObjects (Some t) of
             (allObjects', nextToken') \<Rightarrow>
               folders_loop fuel lst folderPath nextToken' allObjects'))"

text \<open>
  \<^verbatim>\<open>ListAllFolders\<close> (routes.go 855-924). Its Go result type is \<^verbatim>\<open>[]ObjectDetails\<close>: there
  is no error result.
\<close>

definition ListAllFolders :: "nat \<Rightarrow> list_api \<Rightarrow> string \<Rightarrow> ObjectDetails list option" where
  "ListAllFolders fuel lst folderPath =
     (case lst (flat_input (normalizePath folderPath) 1000 None) of
        (resp, Some err) \<Rightarrow>
          Some (folders_first (normalizePath folderPath) (Contents resp) [])
      | (resp, None) \<Rightarrow>
          folders_loop fuel lst (normalizePath folderPath) (NextContinuationToken resp)
            (folders_first (normalizePath folderPath) (Contents resp) []))"

section \<open>Concrete backends\<close>

text \<open>
  Object stores at which the operations are run below. The first is the scenario of
  the specification: the folder \<^verbatim>\<open>docs/\<close> holds its own marker, the file
  \<^verbatim>\<open>docs/a.txt\<close> of five bytes and the subfolder \<^verbatim>\<open>docs/sub/\<close>.
\<close>

definition empty_page :: ListObjectsV2Output where
  "empty_page =
     \<lparr>Contents = [], CommonPrefixes = [], NextContinuationToken = None, IsTruncated = False\<rparr>"

definition docs_page :: ListObjectsV2Output where
  "docs_page =
     \<lparr>Contents = [\<lparr>Key = ''docs/'', ObjSize = 0, ObjLastModified = 1000000000\<rparr>,
                  \<lparr>Key = ''docs/a.txt'', ObjSize = 5, ObjLastModified = 2000000000\<rparr>],
      CommonPrefixes = [''docs/sub/''], NextContinuationToken = None, IsTruncated = False\<rparr>"

definition docs_lst :: list_api where
  "docs_lst inp =
     (if Prefix inp = ''docs/'' \<and> Delimiter inp = Some ''/'' \<and> ContinuationToken inp = None
      then (docs_page, None) else (empty_page, None))"

definition signed_url :: presign_api where
  "signed_url k t = Inr (''https://signed/'' @ k)"

definition failing_presign :: presign_api where
  "failing_presign k t = Inl (BackendError ''presign failed'')"

text \<open>A store whose every listing fails; the SDK then hands back an empty output.\<close>

definition failing_lst :: list_api where
  "failing_lst inp = (empty_page, Some (BackendError ''AccessDenied''))"

text \<open>
  A presign whose URL carries the date of signing, as a signed URL does: the URLs of
  two different days differ.
\<close>

definition dated_url :: presign_api where
  "dated_url k t =
     Inr (k @ (if t < 86400000000000 then ''?X-Amz-Date=day0'' else ''?X-Amz-Date=day1''))"

text \<open>
  A bucket with eleven files \<^verbatim>\<open>a01\<close> to \<^verbatim>\<open>a11\<close> at the root and the file \<^verbatim>\<open>z/f\<close>: for
  the eleven keys a page that \<^verbatim>\<open>ListAllFiles\<close> asks for, the root listing comes in
  two pages, and the folder \<^verbatim>\<open>z/\<close> is on the second.
\<close>

definition file_object :: "string \<Rightarrow> Object" where
  "file_object k = \<lparr>Key = k, ObjSize = 5, ObjLastModified = 1000000000\<rparr>"

definition tree_lst :: list_api where
  "tree_lst inp =
     (if Prefix inp = '''' \<and> ContinuationToken inp = None then
        (\<lparr>Contents = map file_object
             [''a01'', ''a02'', ''a03'', ''a04'', ''a05'', ''a06'', ''a07'', ''a08'', ''a09'',
              ''a10'', ''a11''],
          CommonPrefixes = [], NextContinuationToken = Some ''a11'', IsTruncated = True\<rparr>,
         None)
      else if Prefix inp = '''' \<and> ContinuationToken inp = Some ''a11'' then
        (\<lparr>Contents = [], CommonPrefixes = [''z/''], NextContinuationToken = None,
          IsTruncated = False\<rparr>, None)
      else if Prefix inp = ''z/'' \<and> ContinuationToken inp = None then
        (\<lparr>Contents = [file_object ''z/f''], CommonPrefixes = [],
          NextContinuationToken = None, IsTruncated = False\<rparr>, None)
      else (empty_page, None))"

text \<open>
  An in-memory object store for flat listings: the objects in key order. A listing
  returns the first \<^verbatim>\<open>MaxKeys\<close> objects under the prefix that follow the key named by the
  continuation token, and a token (the last key returned) when more are left.
\<close>

definition mem_list :: "Object list \<Rightarrow> list_api" where
  "mem_list s inp =
     (let matching = filter (\<lambda>obj. take (length (Prefix inp)) (Key obj) = Prefix inp) s;
          pending =
            (case ContinuationToken inp of
               None \<Rightarrow> matching
             | Some t \<Rightarrow> drop 1 (dropWhile (\<lambda>obj. Key obj \<noteq> t) matching));
          page = take (unat (MaxKeys inp)) pending;
          more = (page \<noteq> [] \<and> length page < length pending)
      in (\<lparr>Contents = page, CommonPrefixes = [],
           NextContinuationToken = (if more then Some (Key (last page)) else None),
           IsTruncated = more\<rparr>, None))"

definition mem_delete :: "Object list delete_api" where
  "mem_delete s k = (filter (\<lambda>obj. Key obj \<noteq> k) s, None)"

definition docs_store :: "Object list" where
  "docs_store =
     [\<lparr>Key = ''docs/'', ObjSize = 0, ObjLastModified = 1000000000\<rparr>,
      file_object ''docs/a'', file_object ''docs/b'', file_object ''docs/c'',
      file_object ''docs/d'', file_object ''other'']"

text \<open>
  A store whose second page under \<^verbatim>\<open>docs/\<close> is empty but carries a continuation
  token, the third page being the last.
\<close>

definition gap_lst :: "unit \<Rightarrow> list_api" where
  "gap_lst s inp =
     (if ContinuationToken inp = None then
        (\<lparr>Contents = [\<lparr>Key = ''docs/'', ObjSize = 0, ObjLastModified = 1000000000\<rparr>,
                      file_object ''docs/a''],
          CommonPrefixes = [], NextContinuationToken = Some ''t1'', IsTruncated = True\<rparr>, None)
      else if ContinuationToken inp = Some ''t1'' then
        (\<lparr>Contents = [], CommonPrefixes = [], NextContinuationToken = Some ''t2'',
          IsTruncated = True\<rparr>, None)
      else
        (\<lparr>Contents = [file_object ''docs/b''], CommonPrefixes = [],
          NextContinuationToken = None, IsTruncated = False\<rparr>, None))"

text \<open>The in-memory store, except that deleting \<^verbatim>\<open>docs/b\<close> is refused.\<close>

definition guarded_delete :: "Object list delete_api" where
  "guarded_delete s k =
     (if k = ''docs/b'' then (s, Some (BackendError ''AccessDenied''))
      else mem_delete s k)"

section \<open>Notions the properties are stated with\<close>

text \<open>The store after the deletes of the keys, in order, whatever their outcome.\<close>

definition deleted_after :: "'s delete_api \<Rightarrow> 's \<Rightarrow> string list \<Rightarrow> 's" where
  "deleted_after del s ks = foldl (\<lambda>s' k. fst (del s' k)) s ks"

text \<open>Every delete of the keys, issued in order from the store, succeeds.\<close>

fun deletes_ok :: "'s delete_api \<Rightarrow> 's \<Rightarrow> string list \<Rightarrow> bool" where
  "deletes_ok del s [] = True"
| "deletes_ok del s (k # ks) = (snd (del s k) = None \<and> deletes_ok del (fst (del s k)) ks)"

section \<open>Properties of a listed page\<close>

lemmas scenario_defs =
  ListFiles_def list_input_def normalizePath_def HasSuffix_def docs_lst_def docs_page_def
  empty_page_def signed_url_def failing_presign_def failing_lst_def GenerateDownloadLink_def
  cache_Get_def cache_Set_def empty_links_def folder_record_def object_record_def
  truncate_second_def

lemma Name_folder_record: "map Name (map (folder_record now) cps) = cps"
  by (induction cps) (simp_all add: folder_record_def)


text \<open>
  The records the loop over the contents appends: one for every entry whose key is not
  the folder path, in the order of the entries, each counted.
\<close>

lemma list_contents_Inr:
  "list_contents presign now fp contents objects fc st = (Inr (objects', fc'), st') \<Longrightarrow>
     \<exists>more. objects' = objects @ more \<and>
       map Name more = filter (\<lambda>k. k \<noteq> fp) (map Key contents) \<and>
       fc' = fc + of_nat (length more)"
proof (induction contents arbitrary: objects fc st)
  case Nil
  then show ?case by simp
next
  case (Cons obj rest)
  show ?case
  proof (cases "Key obj = fp")
    case True
    with Cons show ?thesis by simp
  next
    case False
    with Cons.prems obtain u st1 where
      r: "list_contents presign now fp rest
            (objects @ [(object_record obj)\<lparr>DownloadLink := u\<rparr>]) (fc + 1) st1 =
          (Inr (objects', fc'), st')"
      by (auto split: prod.splits sum.splits)
    from Cons.IH [OF r] obtain more where
      m: "objects' = (objects @ [(object_record obj)\<lparr>DownloadLink := u\<rparr>]) @ more"
         "map Name more = filter (\<lambda>k. k \<noteq> fp) (map Key rest)"
         "fc' = fc + 1 + of_nat (length more)"
      by blast
    let ?more = "(object_record obj)\<lparr>DownloadLink := u\<rparr> # more"
    from m False have "objects' = objects @ ?more"
      and "map Name ?more = filter (\<lambda>k. k \<noteq> fp) (map Key (obj # rest))"
      and "fc' = fc + of_nat (length ?more)"
      by (simp_all add: object_record_def)
    then show ?thesis by blast
  qed
qed


text \<open>What a successful call returns, in terms of the response of the backend.\<close>

lemma ListFiles_Inr:
  assumes "ListFiles lst presign now folderPath tok pageSize isFolder st = (Inr r, st')"
  shows "\<exists>more. Files r =
             map (folder_record now)
               (CommonPrefixes (fst (lst (list_input folderPath tok pageSize)))) @ more \<and>
           map Name more =
             (if isFolder then []
              else filter (\<lambda>k. k \<noteq> normalizePath folderPath)
                     (map Key (Contents (fst (lst (list_input folderPath tok pageSize)))))) \<and>
           FilesCount r = of_nat (length more) \<and>
           FoldersCount r =
             of_nat (length (CommonPrefixes (fst (lst (list_input folderPath tok pageSize))))) \<and>
           NoOfRecordsReturned r = of_nat (length (Files r)) \<and>
           snd (lst (list_input folderPath tok pageSize)) = None"
proof -
  obtain resp err where l: "lst (list_input folderPath tok pageSize) = (resp, err)"
    by (cases "lst (list_input folderPath tok pageSize)")
  from assms l have e: "err = None"
    by (cases err) (simp_all add: ListFiles_def)
  show ?thesis
  proof (cases isFolder)
    case True
    with assms l e show ?thesis by (auto simp: ListFiles_def)
  next
    case False
    with assms l e obtain objects fc where
      c: "list_contents presign now (normalizePath folderPath) (Contents resp)
            (map (folder_record now) (CommonPrefixes resp)) 0 st = (Inr (objects, fc), st')"
      and r: "Files r = objects" "FilesCount r = fc"
        "FoldersCount r = of_nat (length (CommonPrefixes resp))"
        "NoOfRecordsReturned r = of_nat (length objects)"
      by (auto simp: ListFiles_def split: prod.splits sum.splits)
    from list_contents_Inr [OF c] obtain more where
      "objects = map (folder_record now) (CommonPrefixes resp) @ more"
      "map Name more = filter (\<lambda>k. k \<noteq> normalizePath folderPath) (map Key (Contents resp))"
      "fc = of_nat (length more)"
      by auto
    with r l e False show ?thesis by simp
  qed
qed

lemma sint_of_nat_32: "n < 2 ^ 31 \<Longrightarrow> sint (of_nat n :: 32 word) = int n"
proof -
  assume a: "n < 2 ^ 31"
  have "sint (of_nat n :: 32 word) = signed_take_bit 31 (int n)"
    by (simp add: signed_of_nat)
  also have "\<dots> = int n"
    using a by (intro signed_take_bit_int_eq_self) auto
  finally show ?thesis .
qed

text \<open>
  C10. Every successful \<open>ListFiles\<close> result has
  \<open>NoOfRecordsReturned = FilesCount + FoldersCount\<close>, which is the length of \<open>Files\<close>,
  for both values of the folders-only flag: the records are one folder record for every
  common prefix, which \<open>FoldersCount\<close> counts, followed by the file records, which
  \<open>FilesCount\<close> counts. The counters are Go's \<^verbatim>\<open>int32\<close>; read as signed numbers they are
  the lengths themselves whenever the page has fewer than \<open>2^31\<close> records.
\<close>

theorem ListFiles_counts_partition:
  assumes "ListFiles lst presign now folderPath tok pageSize isFolder st = (Inr r, st')"
  shows "NoOfRecordsReturned r = FilesCount r + FoldersCount r \<and>
         NoOfRecordsReturned r = of_nat (length (Files r)) \<and>
         (\<exists>folders files. Files r = folders @ files \<and>
            folders = map (folder_record now)
              (CommonPrefixes (fst (lst (list_input folderPath tok pageSize)))) \<and>
            FoldersCount r = of_nat (length folders) \<and>
            FilesCount r = of_nat (length files)) \<and>
         (length (Files r) < 2 ^ 31 \<longrightarrow>
            sint (NoOfRecordsReturned r) = int (length (Files r)) \<and>
            sint (FilesCount r) + sint (FoldersCount r) = int (length (Files r)))"
proof -
  let ?cps = "CommonPrefixes (fst (lst (list_input folderPath tok pageSize)))"
  from ListFiles_Inr [OF assms] obtain more where
    m: "Files r = map (folder_record now) ?cps @ more"
       "FilesCount r = of_nat (length more)"
       "FoldersCount r = of_nat (length ?cps)"
       "NoOfRecordsReturned r = of_nat (length (Files r))"
    by blast
  have 1: "NoOfRecordsReturned r = FilesCount r + FoldersCount r"
    using m by simp
  have 3: "\<exists>folders files. Files r = folders @ files \<and>
            folders = map (folder_record now) ?cps \<and>
            FoldersCount r = of_nat (length folders) \<and>
            FilesCount r = of_nat (length files)"
    using m by simp
  have 4: "sint (NoOfRecordsReturned r) = int (length (Files r)) \<and>
           sint (FilesCount r) + sint (FoldersCount r) = int (length (Files r))"
    if b: "length (Files r) < 2 ^ 31"
  proof -
    have len: "length (Files r) = length ?cps + length more"
      by (simp add: m(1))
    with b have small: "length more < 2 ^ 31" "length ?cps < 2 ^ 31" by simp_all
    have "sint (NoOfRecordsReturned r) = int (length (Files r))"
      by (simp only: m(4) sint_of_nat_32 [OF b])
    moreover have "sint (FilesCount r) = int (length more)"
      by (simp only: m(2) sint_of_nat_32 [OF small(1)])
    moreover have "sint (FoldersCount r) = int (length ?cps)"
      by (simp only: m(3) sint_of_nat_32 [OF small(2)])
    ultimately show ?thesis using len by simp
  qed
  from 1 m(4) 3 4 show ?thesis by blast
qed

theorem ListFiles_counts_partition_witness:
  "fst (ListFiles docs_lst signed_url 3500000000 ''docs'' '''' 10 False empty_links) =
     Inr \<lparr>Files =
            [\<lparr>Name = ''docs/sub/'', IsFolder = True, Size = 0, LastModified = 3000000000,
               DownloadLink = ''''\<rparr>,
             \<lparr>Name = ''docs/a.txt'', IsFolder = False, Size = 5, LastModified = 2000000000,
               DownloadLink = ''https://signed/docs/a.txt''\<rparr>],
          NextPageToken = '''', IsLastPage = True, NoOfRecordsReturned = 2, FilesCount = 1,
          FoldersCount = 1\<rparr> \<and>
   (2 :: 32 word) = 1 + 1 \<and> sint (2 :: 32 word) = 2"
  using ListFiles_counts_partition
    [of docs_lst signed_url 3500000000 "''docs''" "''''" 10 False empty_links
      "projr (fst (ListFiles docs_lst signed_url 3500000000 ''docs'' '''' 10 False empty_links))"
      "snd (ListFiles docs_lst signed_url 3500000000 ''docs'' '''' 10 False empty_links)"]
  by (simp add: scenario_defs)

lemma Name_folder_record_comp: "map (Name \<circ> folder_record now) cps = cps"
  by (induction cps) (simp_all add: folder_record_def)

text \<open>
  C9, as the code has it. The records of a successful page are grouped, not merged by
  key: first one folder record for every common prefix, in the order of the backend's
  \<^verbatim>\<open>CommonPrefixes\<close>, then (unless only folders are asked for) one record for every
  entry of \<^verbatim>\<open>Contents\<close> but the folder's own, in the order of \<^verbatim>\<open>Contents\<close>.
\<close>

theorem ListFiles_folders_then_files:
  assumes "ListFiles lst presign now folderPath tok pageSize isFolder st = (Inr r, st')"
  shows "map Name (Files r) =
           CommonPrefixes (fst (lst (list_input folderPath tok pageSize))) @
           (if isFolder then []
            else filter (\<lambda>k. k \<noteq> normalizePath folderPath)
                   (map Key (Contents (fst (lst (list_input folderPath tok pageSize)))))) \<and>
         take (length (CommonPrefixes (fst (lst (list_input folderPath tok pageSize)))))
           (Files r) =
           map (folder_record now)
             (CommonPrefixes (fst (lst (list_input folderPath tok pageSize))))"
proof -
  from ListFiles_Inr [OF assms] obtain more where
    "Files r =
       map (folder_record now)
         (CommonPrefixes (fst (lst (list_input folderPath tok pageSize)))) @ more"
    "map Name more =
       (if isFolder then []
        else filter (\<lambda>k. k \<noteq> normalizePath folderPath)
               (map Key (Contents (fst (lst (list_input folderPath tok pageSize))))))"
    by blast
  then show ?thesis by (simp add: Name_folder_record_comp)
qed

theorem ListFiles_folders_then_files_witness:
  "map Name
     (Files (projr (fst (ListFiles docs_lst signed_url 3500000000 ''docs'' '''' 10 False
        empty_links)))) =
   [''docs/sub/''] @ [''docs/a.txt'']"
  using ListFiles_folders_then_files
    [of docs_lst signed_url 3500000000 "''docs''" "''''" 10 False empty_links
      "projr (fst (ListFiles docs_lst signed_url 3500000000 ''docs'' '''' 10 False empty_links))"
      "snd (ListFiles docs_lst signed_url 3500000000 ''docs'' '''' 10 False empty_links)"]
  by (simp add: scenario_defs)

text \<open>
  The claim as stated fails on the scenario of the specification: the backend enumerates
  \<^verbatim>\<open>docs/a.txt\<close> before \<^verbatim>\<open>docs/sub/\<close>, and the page returns the folder first, so its
  records are not in key order.
\<close>

theorem ListFiles_key_order_counterexample:
  "(case fst (ListFiles docs_lst signed_url 3500000000 ''docs'' '''' 10 False empty_links) of
      Inl e \<Rightarrow> False
    | Inr r \<Rightarrow> map Name (Files r) = [''docs/sub/'', ''docs/a.txt''] \<and>
               \<not> sorted (map Name (Files r))) \<and>
   ''docs/a.txt'' < ''docs/sub/''"
  by (simp add: scenario_defs)

text \<open>
  C4. \<open>ListFiles\<close> never returns the folder's own marker: no record made from an entry
  of \<^verbatim>\<open>Contents\<close> has the normalised folder path as its key, for every path, token, page
  size and flag. The folder records repeat the backend's common prefixes unchecked, and
  a common prefix extends the requested prefix up to the next delimiter, so it is never
  the prefix itself: for such a response no record at all has the folder path as key.
\<close>

theorem ListFiles_excludes_own_marker:
  assumes "ListFiles lst presign now folderPath tok pageSize isFolder st = (Inr r, st')"
  shows "(\<forall>rec \<in> set (drop (length (CommonPrefixes
              (fst (lst (list_input folderPath tok pageSize))))) (Files r)).
            Name rec \<noteq> normalizePath folderPath) \<and>
         (normalizePath folderPath \<notin>
            set (CommonPrefixes (fst (lst (list_input folderPath tok pageSize)))) \<longrightarrow>
          (\<forall>rec \<in> set (Files r). Name rec \<noteq> normalizePath folderPath))"
proof -
  let ?cps = "CommonPrefixes (fst (lst (list_input folderPath tok pageSize)))"
  let ?p = "normalizePath folderPath"
  from ListFiles_Inr [OF assms] obtain more where
    f: "Files r = map (folder_record now) ?cps @ more" and
    m: "map Name more =
          (if isFolder then []
           else filter (\<lambda>k. k \<noteq> ?p)
                  (map Key (Contents (fst (lst (list_input folderPath tok pageSize))))))"
    by blast
  have "?p \<notin> set (map Name more)"
    by (simp add: m)
  have more: "\<forall>rec \<in> set more. Name rec \<noteq> ?p"
  proof
    fix rec
    assume "rec \<in> set more"
    then have "Name rec \<in> set (map Name more)" by simp
    with \<open>?p \<notin> set (map Name more)\<close> show "Name rec \<noteq> ?p" by metis
  qed
  have d: "drop (length ?cps) (Files r) = more"
    by (simp add: f)
  have "\<forall>rec \<in> set (Files r). Name rec \<noteq> ?p" if "?p \<notin> set ?cps"
  proof
    fix rec
    assume "rec \<in> set (Files r)"
    then consider "rec \<in> set (map (folder_record now) ?cps)" | "rec \<in> set more"
      using f by auto
    then show "Name rec \<noteq> ?p"
    proof cases
      case 1
      then have "Name rec \<in> set (map Name (map (folder_record now) ?cps))"
        by (metis image_eqI list.set_map)
      then have "Name rec \<in> set ?cps"
        by (simp only: Name_folder_record)
      with that show ?thesis by auto
    next
      case 2
      with more show ?thesis by blast
    qed
  qed
  with more d show ?thesis by simp
qed

theorem ListFiles_excludes_own_marker_witness:
  "''docs/'' \<in> set (map Key (Contents docs_page)) \<and>
   normalizePath ''docs'' = ''docs/'' \<and>
   ''docs/'' \<notin> Name ` set (Files (projr (fst
      (ListFiles docs_lst signed_url 3500000000 ''docs'' '''' 10 False empty_links))))"
  using ListFiles_excludes_own_marker
    [of docs_lst signed_url 3500000000 "''docs''" "''''" 10 False empty_links
      "projr (fst (ListFiles docs_lst signed_url 3500000000 ''docs'' '''' 10 False empty_links))"
      "snd (ListFiles docs_lst signed_url 3500000000 ''docs'' '''' 10 False empty_links)"]
  by (simp add: scenario_defs)





section \<open>Properties of the link cache\<close>

lemma GenerateDownloadLink_hit:
  "cache st k = Some (u, expires_at) \<Longrightarrow> t < expires_at \<Longrightarrow>
     GenerateDownloadLink presign t k st = (Inr u, st)"
  by (simp add: GenerateDownloadLink_def cache_Get_def)

lemma GenerateDownloadLink_expired:
  "cache st k = Some (u, expires_at) \<Longrightarrow> expires_at \<le> t \<Longrightarrow>
     fst (GenerateDownloadLink presign t k st) = presign k t \<and>
     presigned (snd (GenerateDownloadLink presign t k st)) = presigned st @ [k]"
  by (cases "presign k t") (simp_all add: GenerateDownloadLink_def cache_Get_def)

lemma GenerateDownloadLink_miss:
  "snd (cache_Get (cache st) t k) = False \<Longrightarrow> presign k t = Inr u \<Longrightarrow>
     GenerateDownloadLink presign t k st =
       (Inr u, st\<lparr>cache := cache_Set (cache st) k u (t + expiryTime),
                  presigned := presigned st @ [k]\<rparr>)"
  by (cases "cache_Get (cache st) t k") (simp add: GenerateDownloadLink_def)

text \<open>
  C3. The time to live is the constant \<open>expiryTime\<close> (fifteen minutes, routes.go 733),
  and the stored entry expires at the time of the storing call plus \<open>expiryTime\<close>. For
  every key \<open>k\<close> and presign computation: when a lookup of \<open>k\<close> at time \<open>t1\<close> misses and
  its presign succeeds with \<open>u\<close>, that lookup invokes the presign computation once and
  returns \<open>u\<close>; every lookup of \<open>k\<close> within the time to live (before \<open>t1 + expiryTime\<close>)
  returns the identical \<open>u\<close>, invokes nothing and leaves the state as it is, so the two
  calls invoke the computation once; a lookup made after the stored entry's time to live
  has elapsed (at or after \<open>t1 + expiryTime\<close>) invokes the computation again and returns
  what that gives, which may be a different URL. In any state, an entry that has not
  expired is returned with no call.
\<close>

theorem GenerateDownloadLink_within_ttl:
  assumes "snd (cache_Get (cache st) t1 k) = False" and "presign k t1 = Inr u"
  shows "fst (GenerateDownloadLink presign t1 k st) = Inr u \<and>
         presigned (snd (GenerateDownloadLink presign t1 k st)) = presigned st @ [k] \<and>
         (\<forall>t2 presign'. t2 < t1 + expiryTime \<longrightarrow>
            GenerateDownloadLink presign' t2 k (snd (GenerateDownloadLink presign t1 k st)) =
              (Inr u, snd (GenerateDownloadLink presign t1 k st))) \<and>
         (\<forall>t3 presign'. t1 + expiryTime \<le> t3 \<longrightarrow>
            fst (GenerateDownloadLink presign' t3 k
                   (snd (GenerateDownloadLink presign t1 k st))) = presign' k t3 \<and>
            presigned (snd (GenerateDownloadLink presign' t3 k
                   (snd (GenerateDownloadLink presign t1 k st)))) =
              presigned st @ [k, k]) \<and>
         (\<forall>st' u' expires_at t presign'.
            cache st' k = Some (u', expires_at) \<and> t < expires_at \<longrightarrow>
            GenerateDownloadLink presign' t k st' = (Inr u', st'))"
proof -
  let ?st1 = "snd (GenerateDownloadLink presign t1 k st)"
  note m = GenerateDownloadLink_miss [where presign = presign, OF assms]
  have c: "cache ?st1 k = Some (u, t1 + expiryTime)"
    by (simp add: m cache_Set_def)
  have p: "presigned ?st1 = presigned st @ [k]"
    by (simp add: m)
  have 1: "fst (GenerateDownloadLink presign t1 k st) = Inr u"
    by (simp add: m)
  have 2: "GenerateDownloadLink presign' t2 k ?st1 = (Inr u, ?st1)"
    if "t2 < t1 + expiryTime" for t2 presign'
    using c that by (rule GenerateDownloadLink_hit)
  have 3: "fst (GenerateDownloadLink presign' t3 k ?st1) = presign' k t3 \<and>
           presigned (snd (GenerateDownloadLink presign' t3 k ?st1)) = presigned st @ [k, k]"
    if "t1 + expiryTime \<le> t3" for t3 presign'
    using GenerateDownloadLink_expired [OF c that, of presign'] p by simp
  have 4: "GenerateDownloadLink presign' t k st' = (Inr u', st')"
    if "cache st' k = Some (u', expires_at) \<and> t < expires_at"
    for st' u' expires_at t presign'
    using that by (simp add: GenerateDownloadLink_hit)
  from 1 p 2 3 4 show ?thesis by blast
qed

theorem GenerateDownloadLink_within_ttl_witness:
  "snd (cache_Get (cache empty_links) 0 ''docs/a.txt'') = False \<and>
   dated_url ''docs/a.txt'' 0 = Inr ''docs/a.txt?X-Amz-Date=day0'' \<and>
   fst (GenerateDownloadLink dated_url 0 ''docs/a.txt'' empty_links) =
     Inr ''docs/a.txt?X-Amz-Date=day0'' \<and>
   fst (GenerateDownloadLink failing_presign 899000000000 ''docs/a.txt''
          (snd (GenerateDownloadLink dated_url 0 ''docs/a.txt'' empty_links))) =
     Inr ''docs/a.txt?X-Amz-Date=day0'' \<and>
   presigned (snd (GenerateDownloadLink failing_presign 899000000000 ''docs/a.txt''
          (snd (GenerateDownloadLink dated_url 0 ''docs/a.txt'' empty_links)))) =
     [''docs/a.txt''] \<and>
   fst (GenerateDownloadLink dated_url 86400000000000 ''docs/a.txt''
          (snd (GenerateDownloadLink dated_url 0 ''docs/a.txt'' empty_links))) =
     Inr ''docs/a.txt?X-Amz-Date=day1'' \<and>
   presigned (snd (GenerateDownloadLink dated_url 86400000000000 ''docs/a.txt''
          (snd (GenerateDownloadLink dated_url 0 ''docs/a.txt'' empty_links)))) =
     [''docs/a.txt'', ''docs/a.txt'']"
proof -
  have h1: "snd (cache_Get (cache empty_links) 0 ''docs/a.txt'') = False"
    by (simp add: cache_Get_def empty_links_def)
  have h2: "dated_url ''docs/a.txt'' 0 = Inr ''docs/a.txt?X-Amz-Date=day0''"
    by (simp add: dated_url_def)
  note t = GenerateDownloadLink_within_ttl [where presign = dated_url, OF h1 h2]
  note a = t [THEN conjunct1]
  note p = t [THEN conjunct2, THEN conjunct1]
  note within = t [THEN conjunct2, THEN conjunct2, THEN conjunct1]
  note after = t [THEN conjunct2, THEN conjunct2, THEN conjunct2, THEN conjunct1]
  have w: "(899000000000 :: int) < 0 + expiryTime"
    by (simp add: expiryTime_def)
  from within [THEN spec, THEN spec, THEN mp, OF w]
  have b: "GenerateDownloadLink failing_presign 899000000000 ''docs/a.txt''
        (snd (GenerateDownloadLink dated_url 0 ''docs/a.txt'' empty_links)) =
      (Inr ''docs/a.txt?X-Amz-Date=day0'',
       snd (GenerateDownloadLink dated_url 0 ''docs/a.txt'' empty_links))" .
  from b have b1: "fst (GenerateDownloadLink failing_presign 899000000000 ''docs/a.txt''
        (snd (GenerateDownloadLink dated_url 0 ''docs/a.txt'' empty_links))) =
      Inr ''docs/a.txt?X-Amz-Date=day0''"
    by simp
  from b p have b2: "presigned (snd (GenerateDownloadLink failing_presign 899000000000
        ''docs/a.txt'' (snd (GenerateDownloadLink dated_url 0 ''docs/a.txt'' empty_links)))) =
      [''docs/a.txt'']"
    by (simp add: empty_links_def)
  have x: "0 + expiryTime \<le> (86400000000000 :: int)"
    by (simp add: expiryTime_def)
  from after [THEN spec, THEN spec, THEN mp, OF x]
  have c: "fst (GenerateDownloadLink dated_url 86400000000000 ''docs/a.txt''
          (snd (GenerateDownloadLink dated_url 0 ''docs/a.txt'' empty_links))) =
        dated_url ''docs/a.txt'' 86400000000000 \<and>
      presigned (snd (GenerateDownloadLink dated_url 86400000000000 ''docs/a.txt''
          (snd (GenerateDownloadLink dated_url 0 ''docs/a.txt'' empty_links)))) =
        presigned empty_links @ [''docs/a.txt'', ''docs/a.txt'']" .
  have d: "dated_url ''docs/a.txt'' 86400000000000 = Inr ''docs/a.txt?X-Amz-Date=day1''"
    by (simp add: dated_url_def)
  from c d have c1: "fst (GenerateDownloadLink dated_url 86400000000000 ''docs/a.txt''
          (snd (GenerateDownloadLink dated_url 0 ''docs/a.txt'' empty_links))) =
        Inr ''docs/a.txt?X-Amz-Date=day1''"
    by simp
  from c have c2: "presigned (snd (GenerateDownloadLink dated_url 86400000000000 ''docs/a.txt''
          (snd (GenerateDownloadLink dated_url 0 ''docs/a.txt'' empty_links)))) =
        [''docs/a.txt'', ''docs/a.txt'']"
    by (simp add: empty_links_def)
  show ?thesis
    by (intro conjI) (rule h1, rule h2, rule a, rule b1, rule b2, rule c1, rule c2)
qed

section \<open>Properties of the folder deletion\<close>

lemma deleted_after_Cons:
  "deleted_after del s (k # ks) = deleted_after del (fst (del s k)) ks"
  by (simp add: deleted_after_def)

lemma deleted_after_snoc:
  "deleted_after del s (ks @ [k]) = fst (del (deleted_after del s ks) k)"
  by (simp add: deleted_after_def)

text \<open>
  The loop of deletes either runs through all keys, every delete succeeding, or stops
  at the first delete that fails, after the deletes of the keys before it.
\<close>

lemma delete_each_cases:
  "delete_each del ks s calls = (res, s', calls') \<Longrightarrow>
     (res = None \<and> deletes_ok del s ks \<and> s' = deleted_after del s ks \<and>
      calls' = calls @ map DeleteCall ks) \<or>
     (\<exists>pre k post e. ks = pre @ k # post \<and> deletes_ok del s pre \<and>
        snd (del (deleted_after del s pre) k) = Some e \<and> res = Some e \<and>
        s' = deleted_after del s (pre @ [k]) \<and>
        calls' = calls @ map DeleteCall (pre @ [k]))"
proof (induction ks arbitrary: s calls)
  case Nil
  then show ?case by (simp add: deleted_after_def)
next
  case (Cons k ks)
  obtain s1 err where d: "del s k = (s1, err)"
    by (cases "del s k")
  show ?case
  proof (cases err)
    case (Some e)
    with Cons.prems d have "res = Some e" "s' = s1" "calls' = calls @ [DeleteCall k]"
      by simp_all
    with d Some have "k # ks = [] @ k # ks \<and> deletes_ok del s [] \<and>
        snd (del (deleted_after del s []) k) = Some e \<and> res = Some e \<and>
        s' = deleted_after del s ([] @ [k]) \<and>
        calls' = calls @ map DeleteCall ([] @ [k])"
      by (simp add: deleted_after_def)
    then show ?thesis by blast
  next
    case None
    with Cons.prems d have
      r: "delete_each del ks s1 (calls @ [DeleteCall k]) = (res, s', calls')"
      by simp
    from Cons.IH [OF r] show ?thesis
    proof
      assume "res = None \<and> deletes_ok del s1 ks \<and> s' = deleted_after del s1 ks \<and>
        calls' = (calls @ [DeleteCall k]) @ map DeleteCall ks"
      with d None show ?thesis
        by (simp add: deleted_after_Cons)
    next
      assume "\<exists>pre k' post e. ks = pre @ k' # post \<and> deletes_ok del s1 pre \<and>
        snd (del (deleted_after del s1 pre) k') = Some e \<and> res = Some e \<and>
        s' = deleted_after del s1 (pre @ [k']) \<and>
        calls' = (calls @ [DeleteCall k]) @ map DeleteCall (pre @ [k'])"
      then obtain pre k' post e where
        p: "ks = pre @ k' # post" "deletes_ok del s1 pre"
          "snd (del (deleted_after del s1 pre) k') = Some e" "res = Some e"
          "s' = deleted_after del s1 (pre @ [k'])"
          "calls' = (calls @ [DeleteCall k]) @ map DeleteCall (pre @ [k'])"
        by blast
      with d None have "k # ks = (k # pre) @ k' # post \<and> deletes_ok del s (k # pre) \<and>
        snd (del (deleted_after del s (k # pre)) k') = Some e \<and> res = Some e \<and>
        s' = deleted_after del s ((k # pre) @ [k']) \<and>
        calls' = calls @ map DeleteCall ((k # pre) @ [k'])"
        by (simp add: deleted_after_Cons)
      then show ?thesis by blast
    qed
  qed
qed

text \<open>
  C6. After a listing phase that collected \<open>allObjects\<close>, \<open>DeleteFolder\<close> issues its
  deletes for the collected keys in the order collected and for the folder marker last,
  one at a time, and nothing else: the deletes issued are an initial part \<open>done\<close> of that
  sequence. All but the last of them succeeded; the outcome of the last is the result of
  the call; when keys are left (\<open>rest\<close>, which then includes the marker) the last delete
  failed and is the error surfaced. The store is left as the deletes issued made it:
  nothing is restored.
\<close>

theorem DeleteFolder_delete_order:
  assumes "collect_keys fuel (lst s) folderPath = Some (Inr allObjects, calls)"
  shows "\<exists>done rest.
           map Name allObjects @ [normalizePath folderPath] = done @ rest \<and> done \<noteq> [] \<and>
           DeleteFolder fuel lst del folderPath s =
             Some (snd (del (deleted_after del s (butlast done)) (last done)),
                   deleted_after del s done, calls @ map DeleteCall done) \<and>
           deletes_ok del s (butlast done) \<and>
           (rest \<noteq> [] \<longrightarrow> snd (del (deleted_after del s (butlast done)) (last done)) \<noteq> None)"
proof -
  let ?ks = "map Name allObjects"
  let ?p = "normalizePath folderPath"
  obtain res s1 calls1 where e: "delete_each del ?ks s calls = (res, s1, calls1)"
    by (cases "delete_each del ?ks s calls") auto
  from assms have D: "DeleteFolder fuel lst del folderPath s =
      Some (delete_phase del ?p allObjects s calls)"
    by (simp add: DeleteFolder_def)
  from delete_each_cases [OF e] show ?thesis
  proof
    assume a: "res = None \<and> deletes_ok del s ?ks \<and> s1 = deleted_after del s ?ks \<and>
      calls1 = calls @ map DeleteCall ?ks"
    with e have "delete_phase del ?p allObjects s calls =
        (snd (del (deleted_after del s ?ks) ?p), deleted_after del s (?ks @ [?p]),
         calls @ map DeleteCall (?ks @ [?p]))"
      by (simp add: delete_phase_def deleted_after_snoc split: prod.splits)
    with D a have "?ks @ [?p] = (?ks @ [?p]) @ [] \<and> ?ks @ [?p] \<noteq> [] \<and>
        DeleteFolder fuel lst del folderPath s =
          Some (snd (del (deleted_after del s (butlast (?ks @ [?p]))) (last (?ks @ [?p]))),
                deleted_after del s (?ks @ [?p]), calls @ map DeleteCall (?ks @ [?p])) \<and>
        deletes_ok del s (butlast (?ks @ [?p])) \<and>
        ([] \<noteq> [] \<longrightarrow>
           snd (del (deleted_after del s (butlast (?ks @ [?p]))) (last (?ks @ [?p]))) \<noteq> None)"
      by simp
    then show ?thesis by blast
  next
    assume "\<exists>pre k post e. ?ks = pre @ k # post \<and> deletes_ok del s pre \<and>
      snd (del (deleted_after del s pre) k) = Some e \<and> res = Some e \<and>
      s1 = deleted_after del s (pre @ [k]) \<and> calls1 = calls @ map DeleteCall (pre @ [k])"
    then obtain pre k post err where
      p: "?ks = pre @ k # post" "deletes_ok del s pre"
        "snd (del (deleted_after del s pre) k) = Some err" "res = Some err"
        "s1 = deleted_after del s (pre @ [k])" "calls1 = calls @ map DeleteCall (pre @ [k])"
      by blast
    with e have "delete_phase del ?p allObjects s calls =
        (Some err, deleted_after del s (pre @ [k]), calls @ map DeleteCall (pre @ [k]))"
      by (simp add: delete_phase_def)
    with D p have "?ks @ [?p] = (pre @ [k]) @ (post @ [?p]) \<and> pre @ [k] \<noteq> [] \<and>
        DeleteFolder fuel lst del folderPath s =
          Some (snd (del (deleted_after del s (butlast (pre @ [k]))) (last (pre @ [k]))),
                deleted_after del s (pre @ [k]), calls @ map DeleteCall (pre @ [k])) \<and>
        deletes_ok del s (butlast (pre @ [k])) \<and>
        (post @ [?p] \<noteq> [] \<longrightarrow>
           snd (del (deleted_after del s (butlast (pre @ [k]))) (last (pre @ [k]))) \<noteq> None)"
      by simp
    then show ?thesis by blast
  qed
qed

lemmas store_defs =
  DeleteFolder_def collect_keys_def delete_phase_def flat_input_def normalizePath_def
  HasSuffix_def mem_list_def mem_delete_def guarded_delete_def docs_store_def file_object_def
  object_record_def

lemma docs_store_collect_keys:
  "collect_keys (Suc fuel) (mem_list docs_store) ''docs'' =
     Some (Inr [\<lparr>Name = ''docs/a'', IsFolder = False, Size = 5, LastModified = 1000000000,
                  DownloadLink = ''''\<rparr>,
                \<lparr>Name = ''docs/b'', IsFolder = False, Size = 5, LastModified = 1000000000,
                  DownloadLink = ''''\<rparr>],
           [ListCall \<lparr>Prefix = ''docs/'', Delimiter = None, MaxKeys = 2,
                      ContinuationToken = None\<rparr>,
            ListCall \<lparr>Prefix = ''docs/'', Delimiter = None, MaxKeys = 1000,
                      ContinuationToken = Some ''docs/a''\<rparr>])"
  by (simp add: store_defs)

theorem DeleteFolder_delete_order_witness:
  "collect_keys 1 (mem_list docs_store) ''docs'' =
     Some (Inr [\<lparr>Name = ''docs/a'', IsFolder = False, Size = 5, LastModified = 1000000000,
                  DownloadLink = ''''\<rparr>,
                \<lparr>Name = ''docs/b'', IsFolder = False, Size = 5, LastModified = 1000000000,
                  DownloadLink = ''''\<rparr>],
           [ListCall \<lparr>Prefix = ''docs/'', Delimiter = None, MaxKeys = 2,
                      ContinuationToken = None\<rparr>,
            ListCall \<lparr>Prefix = ''docs/'', Delimiter = None, MaxKeys = 1000,
                      ContinuationToken = Some ''docs/a''\<rparr>]) \<and>
   (\<exists>done rest.
      [''docs/a'', ''docs/b'', ''docs/''] = done @ rest \<and> done \<noteq> [] \<and>
      DeleteFolder 1 mem_list guarded_delete ''docs'' docs_store =
        Some (snd (guarded_delete (deleted_after guarded_delete docs_store (butlast done))
                (last done)),
              deleted_after guarded_delete docs_store done,
              [ListCall \<lparr>Prefix = ''docs/'', Delimiter = None, MaxKeys = 2,
                         ContinuationToken = None\<rparr>,
               ListCall \<lparr>Prefix = ''docs/'', Delimiter = None, MaxKeys = 1000,
                         ContinuationToken = Some ''docs/a''\<rparr>] @ map DeleteCall done) \<and>
      deletes_ok guarded_delete docs_store (butlast done) \<and>
      (rest \<noteq> [] \<longrightarrow>
         snd (guarded_delete (deleted_after guarded_delete docs_store (butlast done))
           (last done)) \<noteq> None)) \<and>
   DeleteFolder 1 mem_list guarded_delete ''docs'' docs_store =
     Some (Some (BackendError ''AccessDenied''),
           [\<lparr>Key = ''docs/'', ObjSize = 0, ObjLastModified = 1000000000\<rparr>,
            file_object ''docs/b'', file_object ''docs/c'', file_object ''docs/d'',
            file_object ''other''],
           [ListCall \<lparr>Prefix = ''docs/'', Delimiter = None, MaxKeys = 2,
                      ContinuationToken = None\<rparr>,
            ListCall \<lparr>Prefix = ''docs/'', Delimiter = None, MaxKeys = 1000,
                      ContinuationToken = Some ''docs/a''\<rparr>,
            DeleteCall ''docs/a'', DeleteCall ''docs/b''])"
proof -
  have h: "collect_keys 1 (mem_list docs_store) ''docs'' =
     Some (Inr [\<lparr>Name = ''docs/a'', IsFolder = False, Size = 5, LastModified = 1000000000,
                  DownloadLink = ''''\<rparr>,
                \<lparr>Name = ''docs/b'', IsFolder = False, Size = 5, LastModified = 1000000000,
                  DownloadLink = ''''\<rparr>],
           [ListCall \<lparr>Prefix = ''docs/'', Delimiter = None, MaxKeys = 2,
                      ContinuationToken = None\<rparr>,
            ListCall \<lparr>Prefix = ''docs/'', Delimiter = None, MaxKeys = 1000,
                      ContinuationToken = Some ''docs/a''\<rparr>])"
    using docs_store_collect_keys [of 0] by simp
  have n: "normalizePath ''docs'' = ''docs/''"
    by (simp add: normalizePath_def HasSuffix_def)
  from DeleteFolder_delete_order [of 1 mem_list docs_store "''docs''" _ _ guarded_delete, OF h]
  have t: "\<exists>done rest.
      [''docs/a'', ''docs/b'', ''docs/''] = done @ rest \<and> done \<noteq> [] \<and>
      DeleteFolder 1 mem_list guarded_delete ''docs'' docs_store =
        Some (snd (guarded_delete (deleted_after guarded_delete docs_store (butlast done))
                (last done)),
              deleted_after guarded_delete docs_store done,
              [ListCall \<lparr>Prefix = ''docs/'', Delimiter = None, MaxKeys = 2,
                         ContinuationToken = None\<rparr>,
               ListCall \<lparr>Prefix = ''docs/'', Delimiter = None, MaxKeys = 1000,
                         ContinuationToken = Some ''docs/a''\<rparr>] @ map DeleteCall done) \<and>
      deletes_ok guarded_delete docs_store (butlast done) \<and>
      (rest \<noteq> [] \<longrightarrow>
         snd (guarded_delete (deleted_after guarded_delete docs_store (butlast done))
           (last done)) \<noteq> None)"
    by (simp add: n)
  have v: "DeleteFolder 1 mem_list guarded_delete ''docs'' docs_store =
     Some (Some (BackendError ''AccessDenied''),
           [\<lparr>Key = ''docs/'', ObjSize = 0, ObjLastModified = 1000000000\<rparr>,
            file_object ''docs/b'', file_object ''docs/c'', file_object ''docs/d'',
            file_object ''other''],
           [ListCall \<lparr>Prefix = ''docs/'', Delimiter = None, MaxKeys = 2,
                      ContinuationToken = None\<rparr>,
            ListCall \<lparr>Prefix = ''docs/'', Delimiter = None, MaxKeys = 1000,
                      ContinuationToken = Some ''docs/a''\<rparr>,
            DeleteCall ''docs/a'', DeleteCall ''docs/b''])"
    by (simp add: store_defs)
  from h t v show ?thesis by blast
qed

text \<open>
  C2 at a concrete store. The folder \<^verbatim>\<open>docs/\<close> holds its marker and the four objects
  \<^verbatim>\<open>docs/a\<close> to \<^verbatim>\<open>docs/d\<close>. The first listing (two keys) returns the marker and
  \<^verbatim>\<open>docs/a\<close>; the second returns \<^verbatim>\<open>docs/b\<close>, \<^verbatim>\<open>docs/c\<close>, \<^verbatim>\<open>docs/d\<close> and no token, and the
  loop over it stops after its first entry. \<open>DeleteFolder\<close> reports success, having
  deleted \<^verbatim>\<open>docs/a\<close>, \<^verbatim>\<open>docs/b\<close> and the marker: \<^verbatim>\<open>docs/c\<close> and \<^verbatim>\<open>docs/d\<close> are left in the
  store under the prefix.
\<close>

theorem DeleteFolder_leaves_keys:
  "DeleteFolder (Suc fuel) mem_list mem_delete ''docs'' docs_store =
     Some (None,
           [file_object ''docs/c'', file_object ''docs/d'', file_object ''other''],
           [ListCall \<lparr>Prefix = ''docs/'', Delimiter = None, MaxKeys = 2,
                      ContinuationToken = None\<rparr>,
            ListCall \<lparr>Prefix = ''docs/'', Delimiter = None, MaxKeys = 1000,
                      ContinuationToken = Some ''docs/a''\<rparr>,
            DeleteCall ''docs/a'', DeleteCall ''docs/b'', DeleteCall ''docs/''])"
  by (simp add: store_defs)

lemma gap_lst_loop:
  "collect_loop fuel (gap_lst s) ''docs/'' (Some ''t1'') allObjects calls = None"
  by (induction fuel arbitrary: calls) (simp_all add: gap_lst_def flat_input_def)

text \<open>
  C7 at a concrete store. The second page under \<^verbatim>\<open>docs/\<close> has no entry and a
  continuation token, the third page is the last. The loop never assigns \<^verbatim>\<open>nextToken\<close>
  on the empty page and asks for the same page again: \<open>DeleteFolder\<close> does not return,
  whatever the fuel.
\<close>

theorem DeleteFolder_gap_never_returns:
  "DeleteFolder fuel gap_lst del ''docs'' s = None"
  by (simp add: DeleteFolder_def collect_keys_def gap_lst_loop normalizePath_def HasSuffix_def
      gap_lst_def flat_input_def)

section \<open>Properties of the recursive listings\<close>

lemma drain_pages_no_token:
  "drain_pages fuel lst presign now path '''' allObjects = Some (Inr allObjects)"
  by (cases fuel) simp_all

text \<open>
  C1 at a concrete bucket: eleven files at the root and the file \<^verbatim>\<open>z/f\<close>. The root
  listing comes in two pages, the folder \<^verbatim>\<open>z/\<close> on the second. \<open>ListAllFiles\<close> appends
  the records of the second page, but looks for folders to descend into among the records
  of the first page only: the folder \<^verbatim>\<open>z/\<close> is returned and its file \<^verbatim>\<open>z/f\<close>, which
  listing \<^verbatim>\<open>z/\<close> yields, is not.
\<close>

theorem ListAllFiles_skips_later_page_folder:
  "ListAllFiles (Suc fuel) tree_lst signed_url now '''' =
     Some (Inr \<lparr>Files =
                  map (\<lambda>k. \<lparr>Name = k, IsFolder = False, Size = 5, LastModified = 1000000000,
                             DownloadLink = ''https://signed/'' @ k\<rparr>)
                    [''a01'', ''a02'', ''a03'', ''a04'', ''a05'', ''a06'', ''a07'', ''a08'',
                     ''a09'', ''a10'', ''a11''] @
                  [\<lparr>Name = ''z/'', IsFolder = True, Size = 0,
                    LastModified = truncate_second now, DownloadLink = ''''\<rparr>],
                NextPageToken = ''a11'', IsLastPage = False, NoOfRecordsReturned = 12,
                FilesCount = 11, FoldersCount = 0\<rparr>) \<and>
   fst (ListFiles tree_lst signed_url now ''z/'' '''' 10 False empty_links) =
     Inr \<lparr>Files = [\<lparr>Name = ''z/f'', IsFolder = False, Size = 5, LastModified = 1000000000,
                     DownloadLink = ''https://signed/z/f''\<rparr>],
          NextPageToken = '''', IsLastPage = True, NoOfRecordsReturned = 1, FilesCount = 1,
          FoldersCount = 0\<rparr>"
  by (simp add: ListAllFiles_def ListFiles_def list_input_def normalizePath_def
      HasSuffix_def tree_lst_def file_object_def signed_url_def GenerateDownloadLink_def
      cache_Get_def cache_Set_def empty_links_def folder_record_def object_record_def
      drain_pages_no_token)

lemma folders_first_filter:
  "folders_first fp contents allObjects =
     allObjects @ map object_record (filter (\<lambda>obj. Key obj \<noteq> fp \<and> ObjSize obj = 0) contents)"
  by (induction contents arbitrary: allObjects) simp_all

text \<open>
  C8, as the code has it. \<open>ListAllFolders\<close> has no error result. When its first listing
  call fails it returns, as an ordinary result and whatever the fuel, the folder records
  of the entries that the response of the failed call carries (none, for the empty
  response of a failed call).
\<close>

theorem ListAllFolders_first_call_fails:
  assumes "snd (lst (flat_input (normalizePath folderPath) 1000 None)) = Some e"
  shows "ListAllFolders fuel lst folderPath =
           Some (map object_record
                   (filter (\<lambda>obj. Key obj \<noteq> normalizePath folderPath \<and> ObjSize obj = 0)
                      (Contents (fst (lst (flat_input (normalizePath folderPath) 1000 None))))))"
proof -
  obtain resp err where
    l: "lst (flat_input (normalizePath folderPath) 1000 None) = (resp, err)"
    by (cases "lst (flat_input (normalizePath folderPath) 1000 None)")
  with assms have "err = Some e" by simp
  with l show ?thesis
    by (simp add: ListAllFolders_def folders_first_filter)
qed

theorem ListAllFolders_first_call_fails_witness:
  "snd (failing_lst (flat_input (normalizePath ''docs'') 1000 None)) =
     Some (BackendError ''AccessDenied'') \<and>
   ListAllFolders 7 failing_lst ''docs'' = Some []"
proof -
  have h: "snd (failing_lst (flat_input (normalizePath ''docs'') 1000 None)) =
     Some (BackendError ''AccessDenied'')"
    by (simp add: failing_lst_def)
  from ListAllFolders_first_call_fails [of failing_lst "''docs''" _ 7, OF h] h
  show ?thesis
    by (simp add: failing_lst_def empty_page_def)
qed

text \<open>
  The claim as stated fails: the listing call fails with \<^verbatim>\<open>AccessDenied\<close>, and the
  operation returns the empty folder list, with nothing that tells the failure from a
  folder without subfolders.
\<close>

theorem ListAllFolders_swallows_error_counterexample:
  "failing_lst (flat_input ''docs/'' 1000 None) =
     (empty_page, Some (BackendError ''AccessDenied'')) \<and>
   ListAllFolders 0 failing_lst ''docs'' = Some []"
  by (simp add: ListAllFolders_def failing_lst_def empty_page_def)

end
